theory Spec2Isabelle
  imports Main
begin

section \<open>The gpg-agent protocol layer of trezor-agent (gpg/agent.py)\<close>

text \<open>
  The module is Python 2 code: \<open>str\<close> is a byte string, so a byte sequence is modelled as
  \<open>string\<close> (a list of 8-bit \<open>char\<close>). Every exception the code can raise is a value of
  \<open>error\<close>, and a function that can raise returns \<open>error + 'a\<close> with \<open>Inl\<close> the exception.
\<close>

text \<open>
  Outside the model: the interpreter's limit on the depth of recursion (a list nested about
  a thousand levels deep makes \<open>_parse\<close> raise RuntimeError), memory, logging, and the
  creation of the socket. External calls (the \<open>tty\<close> command, the signing device) are
  parameters.
\<close>

subsection \<open>Python values and exceptions\<close>

datatype error =
    ValueError
  | IndexError
  | KeyError
  | TypeError
  | AssertionError

text \<open>
  What \<open>_parse\<close> returns: a \<open>str\<close> (an atom) or a Python list whose first element is the
  name of the list and whose other elements are parsed values.
\<close>

datatype sexp = Atom string | SList "sexp list"

abbreviation newline :: char where
  "newline \<equiv> CHR 0x0A"

definition isspace :: "char \<Rightarrow> bool" where
  \<comment> \<open>C \<open>isspace\<close> in the C locale: tab, LF, VT, FF, CR and space\<close>
  "isspace c = (c \<in> {CHR 0x09, CHR 0x0A, CHR 0x0B, CHR 0x0C, CHR 0x0D, CHR 0x20})"

subsection \<open>\<open>int(s, base)\<close> on a byte string\<close>

definition digit_value :: "char \<Rightarrow> nat" where
  \<comment> \<open>the digit table of the interpreter: 0-9, then a-z and A-Z as 10-35, anything else 37\<close>
  "digit_value c =
     (let n = (of_char c :: nat) in
      if 48 \<le> n \<and> n \<le> 57 then n - 48
      else if 97 \<le> n \<and> n \<le> 122 then n - 87
      else if 65 \<le> n \<and> n \<le> 90 then n - 55
      else 37)"

definition is_digit :: "nat \<Rightarrow> char \<Rightarrow> bool" where
  "is_digit base c = (digit_value c < base)"

fun digits_value :: "nat \<Rightarrow> nat \<Rightarrow> string \<Rightarrow> nat" where
  "digits_value base acc [] = acc"
| "digits_value base acc (c # cs) = digits_value base (acc * base + digit_value c) cs"

definition strip_sign :: "string \<Rightarrow> bool \<times> string" where
  "strip_sign s =
     (case s of
        [] \<Rightarrow> (False, s)
      | c # t \<Rightarrow> if c = CHR ''+'' then (False, t)
                else if c = CHR ''-'' then (True, t)
                else (False, s))"

definition strip_0x :: "nat \<Rightarrow> string \<Rightarrow> string" where
  \<comment> \<open>base 16 only: a leading 0x or 0X is skipped when a hexadecimal digit follows it\<close>
  "strip_0x base s =
     (case s of
        z # x # d # t \<Rightarrow>
          if base = 16 \<and> z = CHR ''0'' \<and> (x = CHR ''x'' \<or> x = CHR ''X'') \<and> is_digit 16 d
          then d # t else s
      | _ \<Rightarrow> s)"

definition py_int :: "nat \<Rightarrow> string \<Rightarrow> error + int" where
  \<comment> \<open>\<open>int(s, base)\<close> of Python 2 for base 10 or 16: a string with a NUL byte is refused;
      white space, an optional sign, white space again, the digits, white space, the end\<close>
  "py_int base s =
     (if CHR 0x00 \<in> set s then Inl ValueError
      else
        let (neg, s2) = strip_sign (dropWhile isspace s);
            s4 = strip_0x base (dropWhile isspace s2);
            ds = takeWhile (is_digit base) s4;
            rest = dropWhile isspace (dropWhile (is_digit base) s4)
        in if ds = [] \<or> rest \<noteq> [] then Inl ValueError
           else Inr ((if neg then - 1 else 1) * int (digits_value base 0 ds)))"

subsection \<open>String formatting and slicing\<close>

definition dec_digit :: "nat \<Rightarrow> char" where
  \<comment> \<open>the digit character of d, for d below 10\<close>
  "dec_digit d = ''0123456789'' ! d"

fun format_nat :: "nat \<Rightarrow> string" where
  \<comment> \<open>\<open>'{}'.format(n)\<close> for a non-negative integer: decimal, no leading zero\<close>
  "format_nat n = (if n < 10 then [dec_digit n] else format_nat (n div 10) @ [dec_digit (n mod 10)])"

declare format_nat.simps [simp del]

definition hex_digit :: "nat \<Rightarrow> char" where
  \<comment> \<open>the upper-case hexadecimal digit of d, for d below 16\<close>
  "hex_digit d = ''0123456789ABCDEF'' ! d"

definition format_02X :: "nat \<Rightarrow> string" where
  \<comment> \<open>\<open>'{:02X}'.format(n)\<close> for n below 256, the only values \<open>ord\<close> of a byte takes\<close>
  "format_02X n = [hex_digit (n div 16), hex_digit (n mod 16)]"

definition slice_to :: "int \<Rightarrow> string \<Rightarrow> string" where
  \<comment> \<open>\<open>s[:k]\<close>: a negative k counts from the end, a k beyond the end stops at the end\<close>
  "slice_to k s = (if 0 \<le> k then take (nat k) s else take (nat (int (length s) + k)) s)"

definition slice_from :: "int \<Rightarrow> string \<Rightarrow> string" where
  \<comment> \<open>\<open>s[k:]\<close>\<close>
  "slice_from k s = (if 0 \<le> k then drop (nat k) s else drop (nat (int (length s) + k)) s)"

definition split1 :: "char \<Rightarrow> string \<Rightarrow> (string \<times> string) option" where
  \<comment> \<open>\<open>a, b = s.split(sep, 1)\<close>: None when sep does not occur (the unpacking then raises
      ValueError)\<close>
  "split1 sep s =
     (if sep \<in> set s
      then Some (takeWhile (\<lambda>c. c \<noteq> sep) s, tl (dropWhile (\<lambda>c. c \<noteq> sep) s))
      else None)"

subsection \<open>Percent escapes\<close>

text \<open>
  \<open>_unescape\<close> works in place on a \<open>bytearray\<close>: at index \<open>i\<close>, a \<open>%\<close> and the (at most two)
  bytes \<open>s[i+1:i+3]\<close> after it are replaced by the one byte \<open>int(str(hex_bytes), 16)\<close>, and
  \<open>i\<close> moves on by one. \<open>int\<close> raises ValueError on a string it refuses, and so does the
  assignment of a value outside 0..255 to a \<open>bytearray\<close> item.
\<close>

function unescape_loop :: "string \<Rightarrow> nat \<Rightarrow> error + string" where
  "unescape_loop s i =
     (if i < length s then
        (if s ! i = CHR ''%'' then
           (case py_int 16 (take 2 (drop (i + 1) s)) of
              Inl e \<Rightarrow> Inl e
            | Inr v \<Rightarrow>
                if 0 \<le> v \<and> v < 256
                then unescape_loop (take i s @ [char_of v] @ drop (i + 3) s) (i + 1)
                else Inl ValueError)
         else unescape_loop s (i + 1))
      else Inr s)"
  by pat_completeness auto
termination unescape_loop
  by (relation "measure (\<lambda>(s, i). length s - i)") auto

declare unescape_loop.simps [simp del]

definition unescape :: "string \<Rightarrow> error + string" where
  "unescape s = unescape_loop s 0"

subsection \<open>The S-expression parser\<close>

definition parse_term :: "string \<Rightarrow> error + (string \<times> string)" where
  "parse_term s =
     (case split1 CHR '':'' s of
        None \<Rightarrow> Inl ValueError
      | Some (size_str, s1) \<Rightarrow>
          (case py_int 10 size_str of
             Inl e \<Rightarrow> Inl e
           | Inr n \<Rightarrow> Inr (slice_to n s1, slice_from n s1)))"

lemma split1_length:
  assumes "split1 c s = Some (a, b)"
  shows "length b < length s"
proof -
  let ?d = "dropWhile (\<lambda>x. x \<noteq> c) s"
  from assms have mem: "c \<in> set s" and b: "b = tl ?d"
    by (auto simp: split1_def split: if_splits)
  from mem have "?d \<noteq> []" by (simp add: dropWhile_eq_Nil_conv)
  then have "length (tl ?d) < length ?d" by (cases ?d) auto
  moreover have "length ?d \<le> length s" by (rule length_dropWhile_le)
  ultimately show ?thesis using b by simp
qed

lemma parse_term_length:
  assumes "parse_term s = Inr (a, r)"
  shows "length r < length s"
proof -
  from assms obtain sz s1 n where sp: "split1 CHR '':'' s = Some (sz, s1)"
    and r: "r = slice_from n s1"
    by (auto simp: parse_term_def split: option.splits sum.splits)
  have "length r \<le> length s1" using r by (simp add: slice_from_def)
  with split1_length [OF sp] show ?thesis by simp
qed

text \<open>
  \<open>_parse\<close> and its \<open>while s[0] != ')'\<close> loop; \<open>values\<close> is the list built so far.
  Reading \<open>s[0]\<close> of an empty string raises IndexError.
\<close>

function parse :: "string \<Rightarrow> error + (sexp \<times> string)"
  and parse_loop :: "sexp list \<Rightarrow> string \<Rightarrow> error + (sexp \<times> string)" where
  "parse s =
     (case s of
        [] \<Rightarrow> Inl IndexError
      | c # s1 \<Rightarrow>
          if c = CHR ''('' then
            (case parse_term s1 of
               Inl e \<Rightarrow> Inl e
             | Inr (name, s2) \<Rightarrow> parse_loop [Atom name] s2)
          else
            (case parse_term s of
               Inl e \<Rightarrow> Inl e
             | Inr (a, r) \<Rightarrow> Inr (Atom a, r)))"
| "parse_loop values s =
     (case s of
        [] \<Rightarrow> Inl IndexError
      | c # s1 \<Rightarrow>
          if c \<noteq> CHR '')'' then
            (case parse s of
               Inl e \<Rightarrow> Inl e
             | Inr (v, s') \<Rightarrow> parse_loop (values @ [v]) s')
          else Inr (SList values, s1))"
  by pat_completeness auto

lemma parse_shrinks:
  "parse_parse_loop_dom (Inl s) \<Longrightarrow> parse s = Inr (v, r) \<Longrightarrow> length r < length s"
  "parse_parse_loop_dom (Inr (vs, s)) \<Longrightarrow> parse_loop vs s = Inr (v, r) \<Longrightarrow> length r < length s"
proof (induction s and vs s arbitrary: v r and v r rule: parse_parse_loop.pinduct)
  case (1 s)
  show ?case
  proof (cases s)
    case Nil
    with 1 show ?thesis by (simp add: parse.psimps)
  next
    case (Cons c s1)
    show ?thesis
    proof (cases "c = CHR ''(''")
      case True
      with 1(1,3) Cons obtain name s2 where pt: "parse_term s1 = Inr (name, s2)"
        and pl: "parse_loop [Atom name] s2 = Inr (v, r)"
        by (auto simp: parse.psimps split: sum.splits)
      from 1(2) [OF Cons True pt refl pl] have "length r < length s2" .
      with parse_term_length [OF pt] Cons show ?thesis by simp
    next
      case False
      with 1(1,3) Cons obtain a where "parse_term s = Inr (a, r)"
        by (auto simp: parse.psimps split: sum.splits)
      then show ?thesis by (rule parse_term_length)
    qed
  qed
next
  case (2 vs s)
  show ?case
  proof (cases s)
    case Nil
    with 2 show ?thesis by (simp add: parse_loop.psimps)
  next
    case (Cons c s1)
    show ?thesis
    proof (cases "c = CHR '')''")
      case True
      with 2(1,4) Cons show ?thesis by (simp add: parse_loop.psimps)
    next
      case False
      with 2(1,4) Cons obtain w s' where p: "parse s = Inr (w, s')"
        and pl: "parse_loop (vs @ [w]) s' = Inr (v, r)"
        by (auto simp: parse_loop.psimps split: sum.splits)
      from 2(2) [OF Cons False p] have "length s' < length s" .
      moreover from 2(3) [OF Cons False p refl pl] have "length r < length s'" .
      ultimately show ?thesis by simp
    qed
  qed
qed

termination parse
proof (relation "measure (\<lambda>x. case x of Inl s \<Rightarrow> 2 * length s | Inr (vs, s) \<Rightarrow> 2 * length s + 1)",
    goal_cases)
  case 1
  show ?case by simp
next
  case (2 s c s1 b name s2)
  then show ?case using parse_term_length [of s1 name s2] by simp
next
  case (3 vs s c s1)
  then show ?case by simp
next
  case (4 vs s c s1 b v s')
  then show ?case using parse_shrinks(1) [of s v s'] by simp
qed

declare parse.simps [simp del] parse_loop.simps [simp del]

subsection \<open>Serialising a point\<close>

definition serialize_atom :: "string \<Rightarrow> string" where
  \<comment> \<open>the first statement of \<open>_serialize_point\<close>: \<open>'{}:'.format(len(data)) + data\<close>\<close>
  "serialize_atom data = format_nat (length data) @ '':'' @ data"

definition replace_char :: "char \<Rightarrow> string \<Rightarrow> string \<Rightarrow> string" where
  \<comment> \<open>\<open>data.replace(c, new)\<close> for a one-byte \<open>c\<close>\<close>
  "replace_char c new data = concat (map (\<lambda>x. if x = c then new else [x]) data)"

definition escape :: "string \<Rightarrow> string" where
  \<comment> \<open>the loop of \<open>_serialize_point\<close> over \<open>['%', '\n', '\r']\<close>, one \<open>replace\<close> after the other\<close>
  "escape data =
     foldl (\<lambda>d c. replace_char c (CHR ''%'' # format_02X (of_char c)) d) data
       [CHR ''%'', CHR 0x0A, CHR 0x0D]"

definition serialize_point :: "string \<Rightarrow> string" where
  "serialize_point data = ''(5:value'' @ escape (serialize_atom data) @ '')''"

subsection \<open>Sequencing computations that can raise\<close>

definition bindE :: "error + 'a \<Rightarrow> ('a \<Rightarrow> error + 'b) \<Rightarrow> error + 'b" where
  "bindE m f = (case m of Inl e \<Rightarrow> Inl e | Inr x \<Rightarrow> f x)"

definition assert :: "bool \<Rightarrow> error + unit" where
  "assert b = (if b then Inr () else Inl AssertionError)"

subsection \<open>Python operations on parsed values\<close>

text \<open>
  The parsed values are used untyped: indexing, slicing, iterating and unpacking work on a
  \<open>str\<close> as they do on a list, a \<open>str\<close> being the sequence of its one-byte strings.
\<close>

definition elems :: "sexp \<Rightarrow> sexp list" where
  \<comment> \<open>the items that iterating over the value yields\<close>
  "elems v = (case v of Atom s \<Rightarrow> map (\<lambda>c. Atom [c]) s | SList xs \<Rightarrow> xs)"

definition unpack2 :: "sexp \<Rightarrow> error + (sexp \<times> sexp)" where
  \<comment> \<open>\<open>a, b = v\<close>: ValueError unless v has exactly two items\<close>
  "unpack2 v = (case elems v of [a, b] \<Rightarrow> Inr (a, b) | _ \<Rightarrow> Inl ValueError)"

definition item :: "sexp \<Rightarrow> nat \<Rightarrow> error + sexp" where
  \<comment> \<open>\<open>v[i]\<close> for a non-negative index\<close>
  "item v i = (if i < length (elems v) then Inr (elems v ! i) else Inl IndexError)"

definition slice1 :: "sexp \<Rightarrow> sexp" where
  \<comment> \<open>\<open>v[1:]\<close>, a \<open>str\<close> for a \<open>str\<close> and a list for a list\<close>
  "slice1 v = (case v of Atom s \<Rightarrow> Atom (drop 1 s) | SList xs \<Rightarrow> SList (drop 1 xs))"

fun dict_update :: "(string \<rightharpoonup> sexp) \<Rightarrow> sexp list \<Rightarrow> error + (string \<rightharpoonup> sexp)" where
  \<comment> \<open>\<open>dict(seq)\<close>, item by item: an item that has not two items raises ValueError, a key
      that is a list (unhashable) TypeError; a later item replaces an earlier one of the same key\<close>
  "dict_update m [] = Inr m"
| "dict_update m (x # xs) =
     (case unpack2 x of
        Inl e \<Rightarrow> Inl e
      | Inr (k, v) \<Rightarrow>
          (case k of
             Atom key \<Rightarrow> dict_update (m(key \<mapsto> v)) xs
           | SList _ \<Rightarrow> Inl TypeError))"

definition dict_get :: "(string \<rightharpoonup> sexp) \<Rightarrow> string \<Rightarrow> error + sexp" where
  \<comment> \<open>\<open>d[key]\<close>\<close>
  "dict_get m key = (case m key of None \<Rightarrow> Inl KeyError | Some v \<Rightarrow> Inr v)"

subsection \<open>Signature values\<close>

definition bytes2num :: "string \<Rightarrow> int" where
  \<comment> \<open>Modelled from the spec: \<open>util.bytes2num\<close> is not among the source files. The spec has a
      byte atom "interpreted as an unsigned big-endian integer".\<close>
  "bytes2num b = foldl (\<lambda>acc c. acc * 256 + of_char c) 0 b"

definition bytes2num_value :: "sexp \<Rightarrow> error + int" where
  \<comment> \<open>Modelled from the spec: \<open>util.bytes2num\<close> applied to a parsed value. The spec speaks of
      byte atoms only; for a list the model raises TypeError.\<close>
  "bytes2num_value v = (case v of Atom b \<Rightarrow> Inr (bytes2num b) | SList _ \<Rightarrow> Inl TypeError)"

definition parse_ecdsa_sig :: "sexp \<Rightarrow> error + int list" where
  "parse_ecdsa_sig args =
     (case elems args of
        [p1, p2] \<Rightarrow>
          bindE (unpack2 p1) (\<lambda>(r, sig_r).
          bindE (unpack2 p2) (\<lambda>(s, sig_s).
          bindE (assert (r = Atom ''r'')) (\<lambda>_.
          bindE (assert (s = Atom ''s'')) (\<lambda>_.
          bindE (bytes2num_value sig_r) (\<lambda>nr.
          bindE (bytes2num_value sig_s) (\<lambda>ns.
          Inr [nr, ns]))))))
      | _ \<Rightarrow> Inl ValueError)"

definition parse_rsa_sig :: "sexp \<Rightarrow> error + int list" where
  "parse_rsa_sig args =
     (case elems args of
        [p1] \<Rightarrow>
          bindE (unpack2 p1) (\<lambda>(s, sig_s).
          bindE (assert (s = Atom ''s'')) (\<lambda>_.
          bindE (bytes2num_value sig_s) (\<lambda>ns.
          Inr [ns])))
      | _ \<Rightarrow> Inl ValueError)"

definition lookup_parser :: "sexp \<Rightarrow> error + (sexp \<Rightarrow> error + int list)" where
  \<comment> \<open>\<open>{'rsa': _parse_rsa_sig, 'ecdsa': _parse_ecdsa_sig}[algo_name]\<close>: KeyError for a string
      that is no key, TypeError for a list, which cannot be hashed\<close>
  "lookup_parser algo_name =
     (case algo_name of
        Atom a \<Rightarrow>
          if a = ''rsa'' then Inr parse_rsa_sig
          else if a = ''ecdsa'' then Inr parse_ecdsa_sig
          else Inl KeyError
      | SList _ \<Rightarrow> Inl TypeError)"

definition parse_sig :: "sexp \<Rightarrow> error + int list" where
  "parse_sig sig0 =
     bindE (unpack2 sig0) (\<lambda>(label, sig).
     bindE (assert (label = Atom ''sig-val'')) (\<lambda>_.
     bindE (item sig 0) (\<lambda>algo_name.
     bindE (lookup_parser algo_name) (\<lambda>parser.
     parser (slice1 sig)))))"


subsection \<open>The socket\<close>

text \<open>
  A connected socket, seen from this program: \<open>incoming\<close> holds the bytes the peer sends on
  the connection, in order, until it closes it; \<open>sent\<close> holds the arguments of the
  \<open>sendall\<close> calls made so far, in order.
\<close>

record sock =
  incoming :: string
  sent :: "string list"

text \<open>
  How a call on a socket ends: it returns a value, raises, or never returns. The socket as
  the call leaves it comes with each of them.
\<close>

datatype 'a outcome = Returns 'a | Raises error | Hangs

type_synonym 'a io = "sock \<Rightarrow> 'a outcome \<times> sock"

definition bindIO :: "'a io \<Rightarrow> ('a \<Rightarrow> 'b io) \<Rightarrow> 'b io" where
  "bindIO m f s =
     (case m s of
        (Returns x, s1) \<Rightarrow> f x s1
      | (Raises e, s1) \<Rightarrow> (Raises e, s1)
      | (Hangs, s1) \<Rightarrow> (Hangs, s1))"

definition lift :: "error + 'a \<Rightarrow> 'a io" where
  "lift r s = (case r of Inl e \<Rightarrow> (Raises e, s) | Inr x \<Rightarrow> (Returns x, s))"

definition send_bytes :: "string \<Rightarrow> sock \<Rightarrow> sock" where
  "send_bytes msg s = s\<lparr>sent := sent s @ [msg]\<rparr>"

definition sendall :: "string \<Rightarrow> unit io" where
  "sendall msg s = (Returns (), send_bytes msg s)"

text \<open>
  The loop of \<open>_recvline\<close>: \<open>sock.recv(1)\<close> gives the next byte, and the empty string once
  the peer has closed the connection; the empty string is not a line feed, so the loop
  writes it to \<open>reply\<close> and goes on. \<open>None\<close> stands for a loop that does not end.
\<close>

partial_function (option) recvline_loop :: "string \<Rightarrow> string \<Rightarrow> (string \<times> string) option" where
  "recvline_loop reply inp =
     (case inp of
        [] \<Rightarrow> recvline_loop (reply @ []) []
      | c # rest \<Rightarrow> if c = newline then Some (reply, rest) else recvline_loop (reply @ [c]) rest)"

definition recvline :: "string io" where
  "recvline s =
     (case recvline_loop [] (incoming s) of
        None \<Rightarrow> (Hangs, s\<lparr>incoming := []\<rparr>)
      | Some (line, rest) \<Rightarrow> (Returns line, s\<lparr>incoming := rest\<rparr>))"

definition communicate :: "string \<Rightarrow> string io" where
  "communicate msg = bindIO (sendall (msg @ [newline])) (\<lambda>_. recvline)"

subsection \<open>The client: signing through a running agent\<close>

definition hex :: "string \<Rightarrow> string" where
  \<comment> \<open>\<open>_hex\<close>: \<open>binascii.hexlify(data).upper()\<close>\<close>
  "hex data = concat (map (\<lambda>c. format_02X (of_char c)) data)"

definition strip :: "string \<Rightarrow> string" where
  \<comment> \<open>\<open>s.strip()\<close>: white space removed at both ends\<close>
  "strip s = rev (dropWhile isspace (rev (dropWhile isspace s)))"

definition startswith :: "string \<Rightarrow> string \<Rightarrow> bool" where
  "startswith s p = (take (length p) s = p)"

definition desc :: string where
  "desc = ''Please+enter+the+passphrase+to+unlock+the+OpenPGP%0A'' @
          ''secret+key,+to+sign+a+new+TREZOR-based+subkey''"

definition split_space :: "string \<Rightarrow> error + (string \<times> string)" where
  \<comment> \<open>\<open>prefix, rest = line.split(' ', 1)\<close>\<close>
  "split_space line = (case split1 CHR '' '' line of None \<Rightarrow> Inl ValueError | Some p \<Rightarrow> Inr p)"

text \<open>
  \<open>sign\<close>. The name of the terminal is the output of the external \<open>tty\<close> command, stripped;
  it is a parameter here. The only option of the \<open>options\<close> list is sent by one \<open>OPTION\<close>
  command.
\<close>

definition sign :: "string \<Rightarrow> string \<Rightarrow> string \<Rightarrow> int list io" where
  "sign ttyname keygrip digest =
     bindIO (lift (assert (length digest = 32))) (\<lambda>_.
     bindIO (communicate ''RESET'') (\<lambda>r1.
     bindIO (lift (assert (startswith r1 ''OK''))) (\<lambda>_.
     bindIO (communicate (''OPTION '' @ ''ttyname='' @ ttyname)) (\<lambda>r2.
     bindIO (lift (assert (r2 = ''OK''))) (\<lambda>_.
     bindIO (communicate (''SIGKEY '' @ keygrip)) (\<lambda>r3.
     bindIO (lift (assert (r3 = ''OK''))) (\<lambda>_.
     bindIO (communicate (''SETHASH '' @ format_nat 8 @ '' '' @ hex digest)) (\<lambda>r4.
     bindIO (lift (assert (r4 = ''OK''))) (\<lambda>_.
     bindIO (communicate (''SETKEYDESC '' @ desc)) (\<lambda>r5.
     bindIO (lift (assert (r5 = ''OK''))) (\<lambda>_.
     bindIO (communicate ''PKSIGN'') (\<lambda>r6.
     bindIO (lift (assert (r6 = ''OK''))) (\<lambda>_.
     bindIO recvline (\<lambda>line0.
     bindIO (lift (unescape (strip line0))) (\<lambda>line.
     bindIO (lift (split_space line)) (\<lambda>(prefix, sig).
     bindIO (lift (if prefix \<noteq> ''D'' then Inl ValueError else Inr ())) (\<lambda>_.
     bindIO (lift (parse sig)) (\<lambda>(sig, leftover).
     bindIO (lift (assert (leftover = []))) (\<lambda>_.
     lift (parse_sig sig))))))))))))))))))))"

subsection \<open>The server: one connection\<close>

text \<open>
  The signing device is outside this module: \<open>sign_identity\<close> is a parameter, a function
  from the hidden challenge to the \<open>signature\<close> field of its result, or to the exception it
  raises. The visual challenge, the identity and the curve name are constants of \<open>server\<close>.
\<close>

definition lookup_e :: "sexp \<Rightarrow> error + sexp" where
  \<comment> \<open>\<open>dict(exp[1][1:])['e']\<close>\<close>
  "lookup_e exp =
     bindE (item exp 1) (\<lambda>second.
     bindE (dict_update Map.empty (elems (slice1 second))) (\<lambda>d.
     dict_get d ''e''))"

definition inquire :: string where
  "inquire = ''S INQUIRE_MAXLEN 4096'' @ [newline] @ ''INQUIRE CIPHERTEXT'' @ [newline]"

definition pkdecrypt :: "(sexp \<Rightarrow> error + string) \<Rightarrow> unit io" where
  \<comment> \<open>the body of \<open>if line == 'PKDECRYPT'\<close>, up to its \<open>break\<close>\<close>
  "pkdecrypt sign_identity =
     bindIO (sendall inquire) (\<lambda>_.
     bindIO recvline (\<lambda>line0.
     bindIO (lift (split_space line0)) (\<lambda>(prefix, line).
     bindIO (lift (assert (prefix = ''D''))) (\<lambda>_.
     bindIO (lift (bindE (unescape line) parse)) (\<lambda>(exp, leftover).
     bindIO (lift (lookup_e exp)) (\<lambda>pubkey.
     bindIO (lift (sign_identity pubkey)) (\<lambda>q.
     bindIO (lift (assert (length q = 65))) (\<lambda>_.
     bindIO (lift (assert (take 1 q = [CHR 0x04]))) (\<lambda>_.
     sendall (''D '' @ serialize_point q @ [newline] @ ''OK'' @ [newline]))))))))))"

definition command_reply :: "string \<Rightarrow> string \<Rightarrow> string \<Rightarrow> string" where
  \<comment> \<open>\<open>reply\<close> after the first two \<open>if\<close> statements of the loop body\<close>
  "command_reply version agent_id line =
     (let reply = ''OK'' @ [newline];
          reply = (if line = ''GETINFO version'' then ''D '' @ version @ [newline] @ ''OK'' @ [newline]
                   else reply);
          reply = (if line = ''AGENT_ID'' then ''D '' @ agent_id @ [newline] @ ''OK'' @ [newline]
                   else reply)
      in reply)"


lemma recvline_loop_Some_shorter:
  assumes "recvline_loop reply0 inp0 = Some y0"
  shows "length (snd y0) < length inp0"
proof (rule recvline_loop.raw_induct [where P = "\<lambda>reply inp y. length (snd y) < length inp",
      OF _ assms], goal_cases)
  case (1 f reply inp y)
  show ?case
  proof (cases inp)
    case Nil
    with 1(2) have "f (reply @ []) [] = Some y" by simp
    from 1(1) [OF this] have False by simp
    then show ?thesis ..
  next
    case (Cons c rest)
    show ?thesis
    proof (cases "c = newline")
      case True
      with 1(2) Cons show ?thesis by auto
    next
      case False
      with 1(2) Cons have "f (reply @ [c]) rest = Some y" by simp
      from 1(1) [OF this] Cons show ?thesis by simp
    qed
  qed
qed

lemma recvline_shorter:
  assumes "recvline s = (Returns line, s1)"
  shows "length (incoming s1) < length (incoming s)"
  using assms recvline_loop_Some_shorter [of "[]" "incoming s"]
  by (auto simp: recvline_def split: option.splits)

definition greeting :: string where
  "greeting = ''OK pleased to see you'' @ [newline]"

text \<open>
  The inner \<open>while True\<close> loop of \<open>server\<close>, on the connection \<open>s\<close>: it ends when an empty
  line arrives and after a \<open>PKDECRYPT\<close> command.
\<close>

function serve_loop :: "string \<Rightarrow> string \<Rightarrow> (sexp \<Rightarrow> error + string) \<Rightarrow> unit io" where
  "serve_loop version agent_id sign_identity s =
     (case recvline s of
        (Returns line, s1) \<Rightarrow>
          if line = [] then (Returns (), s1)
          else
            let reply = command_reply version agent_id line in
            if line = ''PKDECRYPT'' then pkdecrypt sign_identity s1
            else serve_loop version agent_id sign_identity (send_bytes reply s1)
      | (Raises e, s1) \<Rightarrow> (Raises e, s1)
      | (Hangs, s1) \<Rightarrow> (Hangs, s1))"
  by pat_completeness auto
termination serve_loop
proof (relation "measure (\<lambda>(version, agent_id, sign_identity, s). length (incoming s))", goal_cases)
  case 1
  show ?case by simp
next
  case (2 version agent_id sign_identity s x1 s1 line reply)
  then have "recvline s = (Returns line, s1)" by simp
  from recvline_shorter [OF this] show ?case by (simp add: send_bytes_def)
qed

declare serve_loop.simps [simp del]

definition server_connection :: "string \<Rightarrow> string \<Rightarrow> (sexp \<Rightarrow> error + string) \<Rightarrow> unit io" where
  \<comment> \<open>the body of the outer loop of \<open>server\<close> for the connection \<open>s\<close> that \<open>accept\<close> returned\<close>
  "server_connection version agent_id sign_identity =
     bindIO (sendall greeting) (\<lambda>_. serve_loop version agent_id sign_identity)"


subsection \<open>Auxiliary notions used in the proofs\<close>

definition plain_digit :: "char \<Rightarrow> bool" where
  "plain_digit c = (c \<in> set ''0123456789'')"

text \<open>
  The same scan as \<open>unescape_loop\<close>, by recursion on the bytes not yet visited;
  \<open>unescape_loop_rec\<close> below shows that the two agree.
\<close>

definition prepend :: "string \<Rightarrow> error + string \<Rightarrow> error + string" where
  "prepend p r = (case r of Inl e \<Rightarrow> Inl e | Inr t \<Rightarrow> Inr (p @ t))"

fun unescape_rec :: "string \<Rightarrow> error + string" where
  "unescape_rec [] = Inr []"
| "unescape_rec (c # cs) =
     (if c = CHR ''%'' then
        (case py_int 16 (take 2 cs) of
           Inl e \<Rightarrow> Inl e
         | Inr v \<Rightarrow>
             if 0 \<le> v \<and> v < 256 then prepend [char_of v] (unescape_rec (drop 2 cs))
             else Inl ValueError)
      else prepend [c] (unescape_rec cs))"

text \<open>What the three \<open>replace\<close> calls of \<open>escape\<close> do to one byte.\<close>

definition escape_byte :: "char \<Rightarrow> string" where
  "escape_byte c =
     (if c = CHR ''%'' then ''%25'' else if c = CHR 0x0A then ''%0A''
      else if c = CHR 0x0D then ''%0D'' else [c])"

text \<open>
  The byte strings of length at most two that \<open>int(_, 16)\<close> reads as a value from 0 to 255:
  two hexadecimal digits, one hexadecimal digit alone, a digit with a white-space byte before
  or after it, a plus sign and a digit, and \<open>-0\<close>.
\<close>

definition accepted_escape :: "string \<Rightarrow> bool" where
  "accepted_escape t =
     (case t of
        [a] \<Rightarrow> is_digit 16 a
      | [a, b] \<Rightarrow>
          (is_digit 16 a \<and> is_digit 16 b) \<or> (isspace a \<and> is_digit 16 b) \<or>
          (is_digit 16 a \<and> isspace b) \<or> (a = CHR ''+'' \<and> is_digit 16 b) \<or>
          (a = CHR ''-'' \<and> b = CHR ''0'')
      | _ \<Rightarrow> False)"

text \<open>Data used to state the properties of the client and of the server.\<close>

definition sig_val_ecdsa :: "string \<Rightarrow> string \<Rightarrow> string" where
  \<comment> \<open>the canonical form of \<open>(sig-val (ecdsa (r <r>) (s <s>)))\<close>\<close>
  "sig_val_ecdsa r s =
     ''(7:sig-val(5:ecdsa(1:r'' @ serialize_atom r @ '')(1:s'' @ serialize_atom s @ '')))''"

definition lines :: "string list \<Rightarrow> string" where
  \<comment> \<open>the bytes of a sequence of lines, each ended by a line feed\<close>
  "lines ls = concat (map (\<lambda>l. l @ [newline]) ls)"

definition other_command :: "string \<Rightarrow> bool" where
  \<comment> \<open>a command line that neither ends the session nor is \<open>PKDECRYPT\<close>\<close>
  "other_command l = (l \<noteq> [] \<and> newline \<notin> set l \<and> l \<noteq> ''PKDECRYPT'')"

definition appends :: "'a io \<Rightarrow> bool" where
  \<comment> \<open>the call leaves what was sent before in place, and may send more\<close>
  "appends m = (\<forall>s. \<exists>ys. sent (snd (m s)) = sent s @ ys)"

section \<open>Properties\<close>

subsection \<open>Decimal lengths\<close>

lemma plain_digit_props:
  assumes "plain_digit c"
  shows "is_digit 10 c" "\<not> isspace c" "c \<noteq> CHR 0x00" "c \<noteq> CHR '':''" "c \<noteq> CHR ''(''"
    "c \<noteq> CHR '')''" "c \<noteq> CHR ''+''" "c \<noteq> CHR ''-''"
  using assms by (auto simp: plain_digit_def digit_value_def is_digit_def isspace_def)

lemma dec_digit_props:
  assumes "d < 10"
  shows "digit_value (dec_digit d) = d" "plain_digit (dec_digit d)"
proof -
  from assms have "d \<in> {0, 1, 2, 3, 4, 5, 6, 7, 8, 9}" by auto
  then show "digit_value (dec_digit d) = d" "plain_digit (dec_digit d)"
    by (auto simp: dec_digit_def digit_value_def plain_digit_def)
qed

lemma format_nat_digits: "c \<in> set (format_nat n) \<Longrightarrow> plain_digit c"
proof (induction n rule: format_nat.induct)
  case (1 n)
  show ?case
  proof (cases "n < 10")
    case True
    with 1(2) show ?thesis by (subst (asm) format_nat.simps) (simp add: dec_digit_props)
  next
    case False
    have "n mod 10 < 10" by simp
    then have "plain_digit (dec_digit (n mod 10))" by (rule dec_digit_props)
    with False 1 show ?thesis
      by (subst (asm) (2) format_nat.simps) auto
  qed
qed

lemma format_nat_nonempty: "format_nat n \<noteq> []"
  by (subst format_nat.simps) simp

lemma digits_value_snoc:
  "digits_value base acc (xs @ [c]) = digits_value base acc xs * base + digit_value c"
  by (induction xs arbitrary: acc) simp_all

lemma digits_value_format_nat: "digits_value 10 0 (format_nat n) = n"
proof (induction n rule: format_nat.induct)
  case (1 n)
  show ?case
  proof (cases "n < 10")
    case True
    then show ?thesis by (subst format_nat.simps) (simp add: dec_digit_props)
  next
    case False
    with 1 show ?thesis
      by (subst format_nat.simps) (simp add: digits_value_snoc dec_digit_props)
  qed
qed

lemma py_int_digits:
  assumes ne: "ds \<noteq> []" and all: "\<And>c. c \<in> set ds \<Longrightarrow> plain_digit c"
  shows "py_int 10 ds = Inr (int (digits_value 10 0 ds))"
proof -
  from ne obtain c cs where ds: "ds = c # cs" by (cases ds) auto
  then have c: "plain_digit c" using all by simp
  have nonul: "CHR 0x00 \<notin> set ds"
    using all plain_digit_props(3) by blast
  have sp: "dropWhile isspace ds = ds"
    using ds c by (simp add: plain_digit_props)
  have sg: "strip_sign ds = (False, ds)"
    using ds c by (simp add: strip_sign_def plain_digit_props)
  have ox: "strip_0x 10 ds = ds"
    by (simp add: strip_0x_def split: list.splits)
  have alld: "\<forall>c \<in> set ds. is_digit 10 c"
    using all plain_digit_props(1) by blast
  then have tw: "takeWhile (is_digit 10) ds = ds" and dw: "dropWhile (is_digit 10) ds = []"
    by simp_all
  show ?thesis
    using ne nonul by (simp add: py_int_def sp sg ox tw dw)
qed

lemma py_int_format_nat: "py_int 10 (format_nat n) = Inr (int n)"
  by (simp add: py_int_digits format_nat_nonempty format_nat_digits digits_value_format_nat)

lemma split1_append:
  assumes "sep \<notin> set a"
  shows "split1 sep (a @ sep # b) = Some (a, b)"
proof -
  have all: "\<forall>x \<in> set a. x \<noteq> sep" using assms by auto
  have "takeWhile (\<lambda>c. c \<noteq> sep) (a @ sep # b) = takeWhile (\<lambda>c. c \<noteq> sep) a"
    by (rule takeWhile_tail) simp
  also have "\<dots> = a" using all by simp
  finally have tw: "takeWhile (\<lambda>c. c \<noteq> sep) (a @ sep # b) = a" .
  have "dropWhile (\<lambda>c. c \<noteq> sep) (a @ sep # b) = dropWhile (\<lambda>c. c \<noteq> sep) a @ sep # b"
    by (rule dropWhile_append3) simp
  also have "\<dots> = sep # b" using all by simp
  finally have dw: "dropWhile (\<lambda>c. c \<noteq> sep) (a @ sep # b) = sep # b" .
  show ?thesis by (simp add: split1_def tw dw)
qed

lemma format_nat_no_colon: "CHR '':'' \<notin> set (format_nat n)"
  using format_nat_digits [of "CHR '':''" n] plain_digit_props(4) by blast

lemma parse_term_atom:
  "parse_term (format_nat n @ CHR '':'' # rest) = Inr (take n rest, drop n rest)"
  by (simp add: parse_term_def split1_append format_nat_no_colon py_int_format_nat
      slice_to_def slice_from_def)

lemma format_nat_hd: "\<exists>c cs. format_nat n = c # cs \<and> c \<noteq> CHR ''('' \<and> c \<noteq> CHR '')''"
proof -
  obtain c cs where f: "format_nat n = c # cs"
    using format_nat_nonempty [of n] by (cases "format_nat n") auto
  then have "plain_digit c" using format_nat_digits [of c n] by simp
  then have "c \<noteq> CHR ''(''" "c \<noteq> CHR '')''"
    by (simp_all add: plain_digit_props)
  with f show ?thesis by blast
qed

lemma parse_atom:
  "parse (format_nat n @ CHR '':'' # rest) = Inr (Atom (take n rest), drop n rest)"
proof -
  obtain c cs where f: "format_nat n = c # cs" and c: "c \<noteq> CHR ''(''"
    using format_nat_hd [of n] by blast
  have "parse (format_nat n @ CHR '':'' # rest) =
        (case parse_term (format_nat n @ CHR '':'' # rest) of
           Inl e \<Rightarrow> Inl e | Inr (a, r) \<Rightarrow> Inr (Atom a, r))"
    using c by (subst parse.simps) (simp add: f)
  then show ?thesis by (simp add: parse_term_atom)
qed

text \<open>
  C1. Serialising a byte sequence \<open>x\<close> as a canonical atom and parsing the result gives the
  atom \<open>x\<close> and an empty remainder. This holds for every \<open>x\<close>, so in particular for the
  lengths 0 to 4096 of the claim.
\<close>

theorem parse_serialize_atom: "parse (serialize_atom x) = Inr (Atom x, [])"
  by (simp add: serialize_atom_def parse_atom)

text \<open>
  C3, as stated, fails: the length field 5 with two bytes after the colon is parsed without
  an error, and the atom returned has two bytes.
\<close>

theorem parse_short_atom_counterexample:
  "parse ''5:ab'' = Inr (Atom ''ab'', []) \<and> length ''ab'' < (5::nat)"
proof -
  have "format_nat 5 = ''5''"
    by (subst format_nat.simps) (simp add: dec_digit_def)
  with parse_atom [of 5 "''ab''"] show ?thesis by simp
qed

text \<open>
  C3, amended. An atom whose length field declares \<open>n\<close> is the first \<open>n\<close> bytes after the
  colon, or all of them when fewer than \<open>n\<close> follow; the remainder is what comes after
  those bytes. A shortfall is not an error of atom decoding.
\<close>

theorem parse_atom_takes_available:
  "parse (format_nat n @ '':'' @ rest) = Inr (Atom (take n rest), drop n rest)"
  by (simp add: parse_atom)

subsection \<open>Escaping and unescaping\<close>

lemma prepend_simps [simp]:
  "prepend p (Inl e) = Inl e" "prepend p (Inr t) = Inr (p @ t)" "prepend [] r = r"
  "prepend p (prepend q r) = prepend (p @ q) r"
  by (simp_all add: prepend_def split: sum.splits)

lemma unescape_loop_rec:
  "i \<le> length s \<Longrightarrow> unescape_loop s i = prepend (take i s) (unescape_rec (drop i s))"
proof (induction s i rule: unescape_loop.induct)
  case (1 s i)
  show ?case
  proof (cases "i < length s")
    case False
    with 1(3) show ?thesis by (subst unescape_loop.simps) simp
  next
    case lt: True
    then have dr: "drop i s = s ! i # drop (Suc i) s"
      by (simp add: Cons_nth_drop_Suc)
    show ?thesis
    proof (cases "s ! i = CHR ''%''")
      case False
      from 1(2) [OF lt False] lt
      have "unescape_loop s (i + 1) = prepend (take (i + 1) s) (unescape_rec (drop (i + 1) s))"
        by simp
      with lt False show ?thesis
        by (subst unescape_loop.simps) (simp add: dr take_Suc_conv_app_nth)
    next
      case pc: True
      show ?thesis
      proof (cases "py_int 16 (take 2 (drop (i + 1) s))")
        case (Inl e)
        with lt pc show ?thesis
          by (subst unescape_loop.simps) (simp add: dr)
      next
        case (Inr v)
        show ?thesis
        proof (cases "0 \<le> v \<and> v < 256")
          case False
          with lt pc Inr show ?thesis
            by (subst unescape_loop.simps) (auto simp add: dr)
        next
          case True
          let ?s' = "take i s @ [char_of v] @ drop (i + 3) s"
          have len: "i + 1 \<le> length ?s'" using lt by simp
          have tk: "take (i + 1) ?s' = take i s @ [char_of v]" using lt by simp
          have "drop (i + 1) ?s' = drop (i + 3) s" using lt by simp
          also have "\<dots> = drop 2 (drop (Suc i) s)" by (simp add: eval_nat_numeral)
          finally have dp: "drop (i + 1) ?s' = drop 2 (drop (Suc i) s)" .
          from 1(1) [OF lt pc Inr True len]
          have "unescape_loop ?s' (i + 1) =
                prepend (take i s @ [char_of v]) (unescape_rec (drop 2 (drop (Suc i) s)))"
            by (simp only: tk dp)
          with lt pc Inr True show ?thesis
            by (subst unescape_loop.simps) (simp add: dr)
        qed
      qed
    qed
  qed
qed

lemma unescape_rec_eq: "unescape s = unescape_rec s"
  by (simp add: unescape_def unescape_loop_rec)

lemma replace_char_Nil [simp]: "replace_char c new [] = []"
  by (simp add: replace_char_def)

lemma replace_char_Cons [simp]:
  "replace_char c new (x # xs) = (if x = c then new else [x]) @ replace_char c new xs"
  by (simp add: replace_char_def)

lemma replace_char_append [simp]:
  "replace_char c new (xs @ ys) = replace_char c new xs @ replace_char c new ys"
  by (simp add: replace_char_def)

lemma escape_concat: "escape data = concat (map escape_byte data)"
proof -
  have "replace_char (CHR 0x0D) ''%0D'' (replace_char (CHR 0x0A) ''%0A''
          (replace_char CHR ''%'' ''%25'' data)) = concat (map escape_byte data)"
    by (induction data) (simp_all add: escape_byte_def)
  then show ?thesis
    by (simp add: escape_def format_02X_def hex_digit_def)
qed

lemma escape_Nil [simp]: "escape [] = []"
  by (simp add: escape_concat)

lemma escape_Cons: "escape (c # cs) = escape_byte c @ escape cs"
  by (simp add: escape_concat)

lemma escape_append: "escape (xs @ ys) = escape xs @ escape ys"
  by (simp add: escape_concat)

lemmas py_int_eval = py_int_def strip_sign_def strip_0x_def is_digit_def digit_value_def isspace_def

lemma unescape_rec_escape_byte:
  "unescape_rec (escape_byte c @ rest) = prepend [c] (unescape_rec rest)"
proof -
  have a: "py_int 16 ''25'' = Inr 37" by (simp add: py_int_eval)
  have b: "py_int 16 ''0A'' = Inr 10" by (simp add: py_int_eval)
  have c: "py_int 16 ''0D'' = Inr 13" by (simp add: py_int_eval)
  show ?thesis
    by (simp add: escape_byte_def a b c char_of_def)
qed

lemma unescape_rec_escape_append:
  "unescape_rec (escape x @ rest) = prepend x (unescape_rec rest)"
  by (induction x) (simp_all add: escape_Cons unescape_rec_escape_byte)

text \<open>
  C2. Unescaping the percent-escaped form of a byte sequence \<open>x\<close> returns \<open>x\<close>, for every
  \<open>x\<close>; \<open>escape\<close> is the escaping loop of \<open>_serialize_point\<close>.
\<close>

theorem unescape_escape: "unescape (escape x) = Inr x"
  using unescape_rec_escape_append [of x "[]"] by (simp add: unescape_rec_eq)


lemma isspace_excl:
  assumes "isspace c"
  shows "\<not> is_digit 16 c" "c \<noteq> CHR ''+''" "c \<noteq> CHR ''-''" "c \<noteq> CHR 0x00"
  using assms by (auto simp: isspace_def is_digit_def digit_value_def)

lemma sign_not_digit [simp]:
  "\<not> is_digit 16 CHR ''+''" "\<not> is_digit 16 CHR ''-''" "\<not> is_digit 16 CHR ''%''"
  "\<not> isspace CHR ''%''" "\<not> is_digit 16 (CHR 0x00)" "\<not> isspace CHR ''+''" "\<not> isspace CHR ''-''"
  by (simp_all add: is_digit_def digit_value_def isspace_def)

lemma digit_value_zero:
  assumes "is_digit 16 c" "digit_value c = 0"
  shows "c = CHR ''0''"
proof -
  from assms have "(of_char c :: nat) = 48"
    by (auto simp: is_digit_def digit_value_def Let_def split: if_splits)
  then have "(of_char c :: nat) = of_char CHR ''0''" by simp
  then show ?thesis by (simp only: of_char_eq_iff)
qed

lemma py_int_one:
  "py_int 16 [a] = (if is_digit 16 a then Inr (int (digit_value a)) else Inl ValueError)"
  by (auto simp: py_int_def strip_sign_def strip_0x_def isspace_excl)

lemma py_int_refused:
  assumes "length t \<le> 2" "\<not> accepted_escape t" "py_int 16 t = Inr v"
  shows "v < 0"
proof -
  consider "t = []" | a where "t = [a]" | a b where "t = [a, b]"
    using assms(1) by (cases t rule: list.exhaust; cases "tl t"; cases "tl (tl t)") auto
  then show ?thesis
  proof cases
    case 1
    with assms(3) show ?thesis by (simp add: py_int_def strip_sign_def strip_0x_def)
  next
    case 2
    with assms(2,3) show ?thesis by (simp add: py_int_one accepted_escape_def)
  next
    case 3
    with assms(2) have na: "\<not> (is_digit 16 a \<and> is_digit 16 b)" "\<not> (isspace a \<and> is_digit 16 b)"
      "\<not> (is_digit 16 a \<and> isspace b)" "\<not> (a = CHR ''+'' \<and> is_digit 16 b)"
      "\<not> (a = CHR ''-'' \<and> b = CHR ''0'')"
      by (simp_all add: accepted_escape_def)
    show ?thesis
    proof (cases "a = CHR ''-''")
      case True
      with na(5) digit_value_zero [of b] have "is_digit 16 b \<Longrightarrow> 0 < digit_value b"
        by auto
      with True assms(3) 3 show ?thesis
        by (auto simp: py_int_def strip_sign_def strip_0x_def isspace_excl split: if_splits)
    next
      case False
      with assms(3) 3 na show ?thesis
        by (auto simp: py_int_def strip_sign_def strip_0x_def isspace_excl split: if_splits)
    qed
  qed
qed

lemma accepted_escape_no_percent:
  assumes "CHR ''%'' \<in> set t"
  shows "\<not> accepted_escape t"
  using assms by (auto simp: accepted_escape_def split: list.splits)

lemma unescape_rec_percent:
  assumes "\<not> accepted_escape (take 2 cs)"
  shows "unescape_rec (pre @ CHR ''%'' # cs) = Inl ValueError"
proof (induction pre rule: unescape_rec.induct)
  case 1
  have "length (take 2 cs) \<le> 2" by simp
  from py_int_refused [OF this assms] have "\<And>v. py_int 16 (take 2 cs) = Inr v \<Longrightarrow> v < 0" .
  moreover have "\<And>e. py_int 16 (take 2 cs) = Inl e \<Longrightarrow> e = ValueError"
    by (auto simp: py_int_def Let_def split: if_splits prod.splits)
  ultimately show ?case by (auto split: sum.splits)
next
  case (2 c p)
  show ?case
  proof (cases "c = CHR ''%''")
    case False
    with 2(2) show ?thesis by simp
  next
    case True
    let ?t = "take 2 (p @ CHR ''%'' # cs)"
    have err: "\<And>e. py_int 16 ?t = Inl e \<Longrightarrow> e = ValueError"
      by (auto simp: py_int_def Let_def split: if_splits prod.splits)
    show ?thesis
    proof (cases "length p < 2")
      case short: True
      then have "CHR ''%'' \<in> set ?t" by (cases p; cases "tl p") auto
      then have "\<not> accepted_escape ?t" by (rule accepted_escape_no_percent)
      moreover have "length ?t \<le> 2" by simp
      ultimately have "\<And>v. py_int 16 ?t = Inr v \<Longrightarrow> v < 0" using py_int_refused by blast
      with err True show ?thesis by (auto split: sum.splits)
    next
      case False
      then have tk: "?t = take 2 p" and dr: "drop 2 (p @ CHR ''%'' # cs) = drop 2 p @ CHR ''%'' # cs"
        by simp_all
      show ?thesis
      proof (cases "py_int 16 (take 2 p)")
        case (Inl e)
        with err tk have "e = ValueError" by simp
        with Inl True tk show ?thesis by simp
      next
        case (Inr v)
        show ?thesis
        proof (cases "0 \<le> v \<and> v < 256")
          case False
          with Inr True tk show ?thesis by auto
        next
          case ok: True
          from 2(1) [OF True Inr ok] Inr True tk dr ok show ?thesis by simp
        qed
      qed
    qed
  qed
qed

text \<open>
  Each of the forms of \<open>accepted_escape\<close> is read by \<open>int(_, 16)\<close> as a value that fits a
  byte, so the list is not longer than what the code accepts.
\<close>

lemma digit_value_bound: "is_digit 16 c \<Longrightarrow> digit_value c < 16"
  by (simp add: is_digit_def)

lemma digit_not_nul: "is_digit 16 c \<Longrightarrow> c \<noteq> CHR 0x00"
  by (auto simp: is_digit_def digit_value_def)

lemma isspace_nul [simp]: "\<not> isspace (CHR 0x00)"
  by (simp add: isspace_def)

lemma digit_excl:
  assumes "is_digit 16 c"
  shows "\<not> isspace c" "c \<noteq> CHR ''+''" "c \<noteq> CHR ''-''" "c \<noteq> CHR 0x00" "CHR 0x00 \<noteq> c"
  using assms isspace_excl(1) [of c] by (auto simp: is_digit_def digit_value_def)

lemma py_int_accepted:
  assumes "accepted_escape t"
  shows "\<exists>v. py_int 16 t = Inr v \<and> 0 \<le> v \<and> v < 256"
proof -
  consider a where "t = [a]" "is_digit 16 a"
    | a b where "t = [a, b]" "is_digit 16 a" "is_digit 16 b"
    | a b where "t = [a, b]" "isspace a" "is_digit 16 b"
    | a b where "t = [a, b]" "is_digit 16 a" "isspace b"
    | b where "t = [CHR ''+'', b]" "is_digit 16 b"
    | "t = ''-0''"
    using assms by (auto simp: accepted_escape_def split: list.splits)
  then show ?thesis
  proof cases
    case 1
    then show ?thesis using digit_value_bound [of a] by (simp add: py_int_one)
  next
    case 2
    then show ?thesis
      using digit_value_bound [of a] digit_value_bound [of b]
      by (simp add: py_int_def strip_sign_def strip_0x_def digit_excl)
  next
    case 3
    then show ?thesis
      using digit_value_bound [of b]
      using isspace_excl(4) [of a] isspace_excl(4) [of b]
      by (auto simp add: py_int_def strip_sign_def strip_0x_def digit_excl isspace_excl)
  next
    case 4
    then show ?thesis
      using digit_value_bound [of a]
      using isspace_excl(4) [of a] isspace_excl(4) [of b]
      by (auto simp add: py_int_def strip_sign_def strip_0x_def digit_excl isspace_excl)
  next
    case 5
    then show ?thesis
      using digit_value_bound [of b]
      by (simp add: py_int_def strip_sign_def strip_0x_def digit_excl)
  next
    case 6
    then show ?thesis by (simp add: py_int_eval)
  qed
qed

text \<open>
  C4, as stated, fails: in \<open>%A\<close> the \<open>%\<close> is followed by one byte only, and \<open>_unescape\<close>
  returns the line feed byte instead of raising.
\<close>

theorem unescape_single_digit_counterexample:
  "unescape (CHR ''%'' # ''A'') = Inr [CHR 0x0A] \<and> length ''A'' < (2::nat)"
  by (simp add: unescape_rec_eq py_int_one is_digit_def digit_value_def char_of_def)

text \<open>
  C4, amended. \<open>_unescape\<close> raises ValueError on every input containing a \<open>%\<close>, unless the
  (at most two) bytes after that \<open>%\<close> are one of the forms \<open>accepted_escape\<close> lists.
\<close>

theorem unescape_bad_escape:
  assumes "\<not> accepted_escape (take 2 cs)"
  shows "unescape (pre @ CHR ''%'' # cs) = Inl ValueError"
  using assms by (simp add: unescape_rec_eq unescape_rec_percent)

theorem unescape_bad_escape_witness:
  "\<not> accepted_escape (take 2 ''G1'') \<and> unescape (''ab'' @ CHR ''%'' # ''G1'') = Inl ValueError"
proof -
  have h: "\<not> accepted_escape (take 2 ''G1'')"
    by (simp add: accepted_escape_def is_digit_def digit_value_def isspace_def)
  from unescape_bad_escape [OF h, of "''ab''"] h show ?thesis by simp
qed


subsection \<open>Signature values\<close>

lemma bindE_simps [simp]: "bindE (Inl e) f = Inl e" "bindE (Inr x) f = f x"
  by (simp_all add: bindE_def)

lemma assert_simps [simp]: "assert True = Inr ()" "assert False = Inl AssertionError"
  by (simp_all add: assert_def)

lemma unpack2_pair [simp]: "unpack2 (SList [a, b]) = Inr (a, b)"
  by (simp add: unpack2_def elems_def)

text \<open>
  C5. For every byte sequence \<open>b\<close>, \<open>_parse_sig\<close> of the parsed list
  \<open>("sig-val" ("rsa" ("s" b)))\<close> returns the one-component tuple whose component is \<open>b\<close> read
  as an unsigned big-endian integer.
\<close>

theorem parse_sig_rsa:
  "parse_sig (SList [Atom ''sig-val'', SList [Atom ''rsa'', SList [Atom ''s'', Atom b]]])
   = Inr [bytes2num b]"
  by (simp add: parse_sig_def item_def elems_def slice1_def lookup_parser_def parse_rsa_sig_def
      bytes2num_value_def)

text \<open>
  C6. For a parsed list \<open>("sig-val" (tag ...))\<close> whose algorithm tag is neither \<open>rsa\<close> nor
  \<open>ecdsa\<close>, whatever follows the tag, \<open>_parse_sig\<close> fails: the look-up of the tag among the
  two parsers raises KeyError, which is how this code reports an unsupported algorithm.
\<close>

theorem parse_sig_unsupported:
  assumes "tag \<noteq> ''rsa''" "tag \<noteq> ''ecdsa''"
  shows "parse_sig (SList [Atom ''sig-val'', SList (Atom tag # args)]) = Inl KeyError"
  using assms by (simp add: parse_sig_def item_def elems_def lookup_parser_def)

theorem parse_sig_unsupported_witness:
  "''dsa'' \<noteq> ''rsa'' \<and> ''dsa'' \<noteq> ''ecdsa'' \<and>
   parse_sig (SList [Atom ''sig-val'', SList (Atom ''dsa'' # [SList [Atom ''r'', Atom ''ab'']])])
   = Inl KeyError"
  using parse_sig_unsupported [of "''dsa''" "[SList [Atom ''r'', Atom ''ab'']]"] by simp

text \<open>
  C7. For a parsed list \<open>("sig-val" ("ecdsa" (n1 v1) (n2 v2)))\<close> whose two labels are not
  \<open>r\<close> then \<open>s\<close> in that order, \<open>_parse_sig\<close> fails: one of the two assertions of
  \<open>_parse_ecdsa_sig\<close> raises AssertionError, which is how this code reports a malformed
  signature.
\<close>

theorem parse_sig_ecdsa_labels:
  assumes "\<not> (n1 = ''r'' \<and> n2 = ''s'')"
  shows "parse_sig (SList [Atom ''sig-val'',
           SList [Atom ''ecdsa'', SList [Atom n1, v1], SList [Atom n2, v2]]])
         = Inl AssertionError"
  using assms
  by (auto simp add: parse_sig_def item_def elems_def slice1_def lookup_parser_def
      parse_ecdsa_sig_def assert_def)

theorem parse_sig_ecdsa_labels_witness:
  "\<not> (''s'' = ''r'' \<and> ''r'' = ''s'') \<and>
   parse_sig (SList [Atom ''sig-val'',
     SList [Atom ''ecdsa'', SList [Atom ''s'', Atom ''ab''], SList [Atom ''r'', Atom ''cd'']]])
   = Inl AssertionError"
  using parse_sig_ecdsa_labels [of "''s''" "''r''" "Atom ''ab''" "Atom ''cd''"] by simp


subsection \<open>Parsing what was serialised\<close>

lemma format_nat_small: "n < 10 \<Longrightarrow> format_nat n = [dec_digit n]"
  by (subst format_nat.simps) simp

lemma parse_term_serialize: "parse_term (serialize_atom x @ rest) = Inr (x, rest)"
  using parse_term_atom [of "length x" "x @ rest"] by (simp add: serialize_atom_def)

lemma serialize_atom_hd:
  "\<exists>c cs. serialize_atom x = c # cs \<and> c \<noteq> CHR ''('' \<and> c \<noteq> CHR '')''"
  using format_nat_hd [of "length x"] by (auto simp: serialize_atom_def)

lemma parse_serialize_rest: "parse (serialize_atom x @ rest) = Inr (Atom x, rest)"
proof -
  obtain c cs where f: "serialize_atom x = c # cs" and c: "c \<noteq> CHR ''(''"
    using serialize_atom_hd [of x] by blast
  have "parse (serialize_atom x @ rest) =
        (case parse_term (serialize_atom x @ rest) of
           Inl e \<Rightarrow> Inl e | Inr (a, r) \<Rightarrow> Inr (Atom a, r))"
    using c by (subst parse.simps) (simp add: f)
  then show ?thesis by (simp add: parse_term_serialize)
qed

lemma parse_open: "parse (CHR ''('' # serialize_atom name @ rest) = parse_loop [Atom name] rest"
  by (subst parse.simps) (simp add: parse_term_serialize)

lemma parse_loop_close: "parse_loop vs (CHR '')'' # rest) = Inr (SList vs, rest)"
  by (subst parse_loop.simps) simp

lemma parse_loop_atom:
  "parse_loop vs (serialize_atom x @ rest) = parse_loop (vs @ [Atom x]) rest"
proof -
  obtain c cs where f: "serialize_atom x = c # cs" and c: "c \<noteq> CHR '')''"
    using serialize_atom_hd [of x] by blast
  have "parse_loop vs (serialize_atom x @ rest) =
        (case parse (serialize_atom x @ rest) of
           Inl e \<Rightarrow> Inl e | Inr (v, s') \<Rightarrow> parse_loop (vs @ [v]) s')"
    using c by (subst parse_loop.simps) (simp add: f)
  then show ?thesis by (simp add: parse_serialize_rest)
qed

lemma parse_loop_open:
  "parse_loop vs (CHR ''('' # w) =
     (case parse (CHR ''('' # w) of
        Inl e \<Rightarrow> Inl e | Inr (v, s') \<Rightarrow> parse_loop (vs @ [v]) s')"
  by (subst parse_loop.simps) simp

lemma parse_pair:
  "parse (CHR ''('' # serialize_atom name @ serialize_atom v @ CHR '')'' # rest)
   = Inr (SList [Atom name, Atom v], rest)"
  by (simp add: parse_open parse_loop_atom parse_loop_close)

lemma sig_val_ecdsa_alt:
  "sig_val_ecdsa r s =
     CHR ''('' # serialize_atom ''sig-val'' @
       CHR ''('' # serialize_atom ''ecdsa'' @
         CHR ''('' # serialize_atom ''r'' @ serialize_atom r @ CHR '')'' #
         CHR ''('' # serialize_atom ''s'' @ serialize_atom s @ CHR '')'' # '')'' @ '')''"
proof -
  have "serialize_atom ''sig-val'' = ''7:sig-val''" "serialize_atom ''ecdsa'' = ''5:ecdsa''"
    "serialize_atom ''r'' = ''1:r''" "serialize_atom ''s'' = ''1:s''"
    by (simp_all add: serialize_atom_def format_nat_small dec_digit_def)
  then show ?thesis by (simp add: sig_val_ecdsa_def)
qed

lemma parse_sig_val_ecdsa:
  "parse (sig_val_ecdsa r s) =
     Inr (SList [Atom ''sig-val'',
                 SList [Atom ''ecdsa'', SList [Atom ''r'', Atom r], SList [Atom ''s'', Atom s]]], [])"
  by (simp add: sig_val_ecdsa_alt parse_open parse_loop_open parse_loop_atom parse_loop_close)

lemma parse_sig_ecdsa:
  "parse_sig (SList [Atom ''sig-val'',
                 SList [Atom ''ecdsa'', SList [Atom ''r'', Atom r], SList [Atom ''s'', Atom s]]])
   = Inr [bytes2num r, bytes2num s]"
  by (simp add: parse_sig_def item_def elems_def slice1_def lookup_parser_def parse_ecdsa_sig_def
      bytes2num_value_def)

lemma newline_escape: "newline \<notin> set (escape x)"
  by (induction x) (auto simp: escape_Cons escape_byte_def)

lemma unescape_serialize_point:
  "unescape (serialize_point q) = Inr (CHR ''('' # serialize_atom ''value'' @ serialize_atom q @ '')'')"
proof -
  have "serialize_atom ''value'' = ''5:value''"
    by (simp add: serialize_atom_def format_nat_small dec_digit_def)
  then show ?thesis
    by (simp add: unescape_rec_eq serialize_point_def unescape_rec_escape_append)
qed

lemma newline_serialize_point: "newline \<notin> set (serialize_point q)"
  by (simp add: serialize_point_def newline_escape)


subsection \<open>Reading lines\<close>

lemma recvline_loop_Nil: "recvline_loop reply [] = None"
proof (cases "recvline_loop reply []")
  case None
  then show ?thesis .
next
  case (Some y)
  from recvline_loop_Some_shorter [OF this] show ?thesis by simp
qed

lemma recvline_loop_Cons:
  "recvline_loop reply (c # rest) =
     (if c = newline then Some (reply, rest) else recvline_loop (reply @ [c]) rest)"
  by (subst recvline_loop.simps) simp

lemma recvline_loop_line:
  "newline \<notin> set l \<Longrightarrow> recvline_loop reply (l @ newline # rest) = Some (reply @ l, rest)"
  by (induction l arbitrary: reply) (auto simp add: recvline_loop_Cons)

lemma recvline_line:
  assumes "newline \<notin> set l"
  shows "recvline \<lparr>incoming = l @ newline # rest, sent = out\<rparr>
         = (Returns l, \<lparr>incoming = rest, sent = out\<rparr>)"
  using assms by (simp add: recvline_def recvline_loop_line)

lemma communicate_line:
  assumes "newline \<notin> set l"
  shows "communicate msg \<lparr>incoming = l @ newline # rest, sent = out\<rparr>
         = (Returns l, \<lparr>incoming = rest, sent = out @ [msg @ [newline]]\<rparr>)"
  using assms
  by (simp add: communicate_def bindIO_def sendall_def send_bytes_def recvline_line)

lemma communicate_OK:
  "communicate msg \<lparr>incoming = CHR ''O'' # CHR ''K'' # newline # rest, sent = out\<rparr>
   = (Returns ''OK'', \<lparr>incoming = rest, sent = out @ [msg @ [newline]]\<rparr>)"
  using communicate_line [of "''OK''" msg rest out] by simp

subsection \<open>What the server sends\<close>

lemma appends_bindIO:
  assumes "appends m" "\<And>x. appends (f x)"
  shows "appends (bindIO m f)"
  unfolding appends_def
proof
  fix s
  from assms(1) obtain ys where ys: "sent (snd (m s)) = sent s @ ys"
    unfolding appends_def by blast
  show "\<exists>zs. sent (snd (bindIO m f s)) = sent s @ zs"
  proof (cases "m s")
    case (Pair r s1)
    show ?thesis
    proof (cases r)
      case (Returns x)
      from assms(2) [of x] obtain zs where "sent (snd (f x s1)) = sent s1 @ zs"
        unfolding appends_def by blast
      with ys Pair Returns show ?thesis by (simp add: bindIO_def)
    next
      case (Raises e)
      with ys Pair show ?thesis by (simp add: bindIO_def)
    next
      case Hangs
      with ys Pair show ?thesis by (simp add: bindIO_def)
    qed
  qed
qed

lemma appends_lift: "appends (lift r)"
  by (cases r) (simp_all add: appends_def lift_def)

lemma appends_sendall: "appends (sendall msg)"
  by (simp add: appends_def sendall_def send_bytes_def)

lemma appends_recvline: "appends recvline"
  by (simp add: appends_def recvline_def split: option.splits)

lemma appends_case_prod: "(\<And>a b. appends (f a b)) \<Longrightarrow> appends (case p of (a, b) \<Rightarrow> f a b)"
  by (cases p) simp

lemma appends_pkdecrypt: "appends (pkdecrypt sign_identity)"
  unfolding pkdecrypt_def
  by (intro appends_bindIO appends_lift appends_sendall appends_recvline appends_case_prod)

lemma appends_serve_loop: "\<exists>ys. sent (snd (serve_loop version agent_id sign_identity s)) = sent s @ ys"
proof (induction version agent_id sign_identity s rule: serve_loop.induct)
  case (1 version agent_id sign_identity s)
  from appends_recvline obtain ys where ys: "sent (snd (recvline s)) = sent s @ ys"
    unfolding appends_def by blast
  show ?case
  proof (cases "recvline s")
    case (Pair r s1)
    show ?thesis
    proof (cases r)
      case (Returns line)
      show ?thesis
      proof (cases "line = []")
        case True
        with Pair Returns ys show ?thesis by (subst serve_loop.simps) simp
      next
        case ne: False
        show ?thesis
        proof (cases "line = ''PKDECRYPT''")
          case True
          from appends_pkdecrypt [of sign_identity] obtain zs
            where "sent (snd (pkdecrypt sign_identity s1)) = sent s1 @ zs"
            unfolding appends_def by blast
          with Pair Returns ys True show ?thesis by (subst serve_loop.simps) simp
        next
          case False
          let ?reply = "command_reply version agent_id line"
          from Pair Returns have "(Returns line, s1) = recvline s" by simp
          from 1 [OF this refl ne refl False] obtain zs
            where "sent (snd (serve_loop version agent_id sign_identity (send_bytes ?reply s1)))
                   = sent (send_bytes ?reply s1) @ zs" by blast
          with Pair Returns ys ne False show ?thesis
            by (subst serve_loop.simps) (simp add: send_bytes_def)
        qed
      qed
    next
      case (Raises e)
      with Pair ys show ?thesis by (subst serve_loop.simps) simp
    next
      case Hangs
      with Pair ys show ?thesis by (subst serve_loop.simps) simp
    qed
  qed
qed

text \<open>
  C10. On every accepted connection, whatever the client sends and however the handling of
  the connection ends (also when the client sends nothing at all), the first thing the
  server sends is the greeting line; every reply to a command comes after it.
\<close>

theorem server_greets_first:
  "\<exists>replies. sent (snd (server_connection version agent_id sign_identity s))
     = sent s @ greeting # replies"
proof -
  obtain ys where "sent (snd (serve_loop version agent_id sign_identity (send_bytes greeting s)))
                   = sent (send_bytes greeting s) @ ys"
    using appends_serve_loop by blast
  then show ?thesis
    by (simp add: server_connection_def bindIO_def sendall_def send_bytes_def)
qed


subsection \<open>The signing handshake\<close>

lemma strip_id:
  assumes "s \<noteq> []" "\<not> isspace (hd s)" "\<not> isspace (last s)"
  shows "strip s = s"
proof -
  from assms(1,2) have a: "dropWhile isspace s = s" by (cases s) auto
  from assms(1,3) have "dropWhile isspace (rev s) = rev s"
    by (cases "rev s") (auto simp: last_rev [symmetric] simp del: last_rev)
  with a show ?thesis by (simp add: strip_def)
qed

lemma escape_sig_val_last: "\<exists>w. escape (sig_val_ecdsa r sv) = w @ '')''"
proof -
  let ?a = "''(7:sig-val(5:ecdsa(1:r'' @ serialize_atom r @ '')(1:s'' @ serialize_atom sv @ ''))''"
  have "sig_val_ecdsa r sv = ?a @ '')''" by (simp add: sig_val_ecdsa_def)
  then have "escape (sig_val_ecdsa r sv) = escape ?a @ escape '')''"
    by (simp only: escape_append)
  moreover have "escape '')'' = '')''" by (simp add: escape_Cons escape_byte_def)
  ultimately show ?thesis by simp
qed

lemma strip_data_line:
  "strip (CHR ''D'' # CHR '' '' # escape (sig_val_ecdsa r sv))
   = CHR ''D'' # CHR '' '' # escape (sig_val_ecdsa r sv)"
proof -
  obtain w where w: "escape (sig_val_ecdsa r sv) = w @ '')''"
    using escape_sig_val_last by blast
  show ?thesis
    by (rule strip_id) (simp_all add: w isspace_def)
qed

lemma unescape_rec_escape: "unescape_rec (escape x) = Inr x"
  using unescape_rec_escape_append [of x "[]"] by simp

lemma unescape_data_line:
  "unescape (CHR ''D'' # CHR '' '' # escape x) = Inr (CHR ''D'' # CHR '' '' # x)"
  by (simp add: unescape_rec_eq unescape_rec_escape)

lemma split_space_data_line: "split_space (CHR ''D'' # CHR '' '' # x) = Inr (''D'', x)"
  by (simp add: split_space_def split1_def)

lemma lift_simps [simp]:
  "lift (Inr x) s = (Returns x, s)" "lift (Inl e) s = (Raises e, s)"
  by (simp_all add: lift_def)

text \<open>
  C8. For a digest of 32 bytes, any key grip and any terminal name: when the agent answers
  \<open>OK\<close> to each of the six commands and then sends the line \<open>D\<close>, a space and the escaped
  canonical form of \<open>(sig-val (ecdsa (r <r>) (s <s>)))\<close>, \<open>sign\<close> returns the pair of the
  big-endian values of \<open>r\<close> and \<open>s\<close>. It has sent the six commands in order, and what the
  agent sends after the data line is left unread.
\<close>

theorem sign_returns_ecdsa_pair:
  assumes "length digest = 32"
    and "incoming s =
      lines [''OK'', ''OK'', ''OK'', ''OK'', ''OK'', ''OK'', ''D '' @ escape (sig_val_ecdsa r sv)] @ rest"
  shows "sign ttyname keygrip digest s =
     (Returns [bytes2num r, bytes2num sv],
      s\<lparr>incoming := rest,
        sent := sent s @
          [''RESET'' @ [newline],
           ''OPTION ttyname='' @ ttyname @ [newline],
           ''SIGKEY '' @ keygrip @ [newline],
           ''SETHASH 8 '' @ hex digest @ [newline],
           ''SETKEYDESC '' @ desc @ [newline],
           ''PKSIGN'' @ [newline]]\<rparr>)"
proof -
  obtain inc out where s: "s = \<lparr>incoming = inc, sent = out\<rparr>" by (cases s) simp
  have inc: "inc = ''OK'' @ newline # ''OK'' @ newline # ''OK'' @ newline # ''OK'' @ newline #
      ''OK'' @ newline # ''OK'' @ newline #
      CHR ''D'' # CHR '' '' # escape (sig_val_ecdsa r sv) @ newline # rest"
    using assms(2) by (simp add: s lines_def)
  have eight: "format_nat 8 = ''8''" by (simp add: format_nat_small dec_digit_def)
  have data: "recvline \<lparr>incoming = CHR ''D'' # CHR '' '' # escape (sig_val_ecdsa r sv) @ newline # rest,
        sent = x\<rparr>
      = (Returns (CHR ''D'' # CHR '' '' # escape (sig_val_ecdsa r sv)), \<lparr>incoming = rest, sent = x\<rparr>)"
    for x
    using recvline_line [of "CHR ''D'' # CHR '' '' # escape (sig_val_ecdsa r sv)" rest x]
    by (simp add: newline_escape)
  show ?thesis
    by (simp add: sign_def s inc assms(1) bindIO_def communicate_OK startswith_def eight data
        strip_data_line unescape_data_line split_space_data_line parse_sig_val_ecdsa
        parse_sig_ecdsa)
qed


theorem sign_returns_ecdsa_pair_witness:
  "length (replicate 32 (CHR 0x00)) = 32 \<and>
   incoming \<lparr>incoming = lines [''OK'', ''OK'', ''OK'', ''OK'', ''OK'', ''OK'',
        ''D '' @ escape (sig_val_ecdsa ''abcd'' ''wxyz'')] @ lines [''OK''], sent = []\<rparr>
     = lines [''OK'', ''OK'', ''OK'', ''OK'', ''OK'', ''OK'',
        ''D '' @ escape (sig_val_ecdsa ''abcd'' ''wxyz'')] @ lines [''OK''] \<and>
   sign ''/dev/pts/0'' ''ABCDEF0123456789ABCDEF0123456789ABCDEF01'' (replicate 32 (CHR 0x00))
     \<lparr>incoming = lines [''OK'', ''OK'', ''OK'', ''OK'', ''OK'', ''OK'',
        ''D '' @ escape (sig_val_ecdsa ''abcd'' ''wxyz'')] @ lines [''OK''], sent = []\<rparr>
   = (Returns [bytes2num ''abcd'', bytes2num ''wxyz''],
      \<lparr>incoming = lines [''OK''],
       sent = [''RESET'' @ [newline],
           ''OPTION ttyname='' @ ''/dev/pts/0'' @ [newline],
           ''SIGKEY '' @ ''ABCDEF0123456789ABCDEF0123456789ABCDEF01'' @ [newline],
           ''SETHASH 8 '' @ hex (replicate 32 (CHR 0x00)) @ [newline],
           ''SETKEYDESC '' @ desc @ [newline],
           ''PKSIGN'' @ [newline]]\<rparr>)"
proof -
  let ?s = "\<lparr>incoming = lines [''OK'', ''OK'', ''OK'', ''OK'', ''OK'', ''OK'',
        ''D '' @ escape (sig_val_ecdsa ''abcd'' ''wxyz'')] @ lines [''OK''], sent = []\<rparr>"
  have h1: "length (replicate 32 (CHR 0x00)) = 32" by simp
  have h2: "incoming ?s = lines [''OK'', ''OK'', ''OK'', ''OK'', ''OK'', ''OK'',
        ''D '' @ escape (sig_val_ecdsa ''abcd'' ''wxyz'')] @ lines [''OK'']" by simp
  from sign_returns_ecdsa_pair [OF h1 h2, of "''/dev/pts/0''"
      "''ABCDEF0123456789ABCDEF0123456789ABCDEF01''"] h1 h2
  show ?thesis by simp
qed

subsection \<open>The reply to PKDECRYPT\<close>

lemma lines_Cons: "lines (l # ls) @ tail = l @ newline # lines ls @ tail"
  by (simp add: lines_def)

lemma lines_Nil: "lines [] @ tail = tail"
  by (simp add: lines_def)

lemma serve_loop_commands:
  assumes "\<And>l. l \<in> set cmds \<Longrightarrow> other_command l"
  shows "serve_loop version agent_id sign_identity \<lparr>incoming = lines cmds @ tail, sent = out\<rparr>
       = serve_loop version agent_id sign_identity
           \<lparr>incoming = tail, sent = out @ map (command_reply version agent_id) cmds\<rparr>"
  using assms
proof (induction cmds arbitrary: out)
  case Nil
  show ?case by (simp add: lines_Nil)
next
  case (Cons l cmds)
  from Cons(2) [of l] have l: "l \<noteq> []" "newline \<notin> set l" "l \<noteq> ''PKDECRYPT''"
    by (simp_all add: other_command_def)
  have "serve_loop version agent_id sign_identity \<lparr>incoming = lines (l # cmds) @ tail, sent = out\<rparr>
      = serve_loop version agent_id sign_identity
          \<lparr>incoming = lines cmds @ tail, sent = out @ [command_reply version agent_id l]\<rparr>"
    using l
    by (subst serve_loop.simps) (simp add: lines_Cons recvline_line send_bytes_def)
  also have "\<dots> = serve_loop version agent_id sign_identity
      \<lparr>incoming = tail,
       sent = (out @ [command_reply version agent_id l]) @ map (command_reply version agent_id) cmds\<rparr>"
    using Cons(2) by (intro Cons(1)) simp
  finally show ?case by simp
qed

lemma pkdecrypt_reply:
  assumes "newline \<notin> set data" "bindE (unescape data) parse = Inr (exp, leftover)"
    "lookup_e exp = Inr pubkey" "sign_identity pubkey = Inr q" "length q = 65"
    "take 1 q = [CHR 0x04]"
  shows "pkdecrypt sign_identity \<lparr>incoming = CHR ''D'' # CHR '' '' # data @ newline # rest, sent = out\<rparr>
       = (Returns (), \<lparr>incoming = rest,
            sent = out @ [inquire, ''D '' @ serialize_point q @ [newline] @ ''OK'' @ [newline]]\<rparr>)"
proof -
  have "recvline \<lparr>incoming = CHR ''D'' # CHR '' '' # data @ newline # rest, sent = x\<rparr>
      = (Returns (CHR ''D'' # CHR '' '' # data), \<lparr>incoming = rest, sent = x\<rparr>)" for x
    using recvline_line [of "CHR ''D'' # CHR '' '' # data" rest x] assms(1) by simp
  then show ?thesis
    using assms(2-6)
    by (simp add: pkdecrypt_def bindIO_def sendall_def send_bytes_def split_space_data_line
        inquire_def)
qed

lemma parse_point:
  "bindE (unescape (serialize_point q)) parse = Inr (SList [Atom ''value'', Atom q], [])"
  using parse_pair [of "''value''" q "[]"] by (simp add: unescape_serialize_point)

text \<open>
  C9. The client sends any commands other than \<open>PKDECRYPT\<close>, then \<open>PKDECRYPT\<close>, then a data
  line whose payload unescapes and parses to an expression with an \<open>e\<close> field; the signing
  capability answers that field with a point \<open>q\<close> of 65 bytes that starts with the byte 4.
  Then the handling of the connection returns, and the last thing the server has sent is
  \<open>D\<close>, a space, a payload without line feed, a line feed and the line \<open>OK\<close>; unescaping the
  payload and parsing the result gives the list named \<open>value\<close> with \<open>q\<close> as its only other
  item, and nothing is left over.
\<close>

theorem server_pkdecrypt_reply:
  assumes "\<And>l. l \<in> set cmds \<Longrightarrow> other_command l"
    and "incoming s = lines cmds @ lines [''PKDECRYPT'', ''D '' @ data] @ rest"
    and "newline \<notin> set data"
    and "bindE (unescape data) parse = Inr (exp, leftover)"
    and "lookup_e exp = Inr pubkey"
    and "sign_identity pubkey = Inr q"
    and "length q = 65"
    and "take 1 q = [CHR 0x04]"
  shows "server_connection version agent_id sign_identity s =
      (Returns (),
       s\<lparr>incoming := rest,
         sent := sent s @ [greeting] @ map (command_reply version agent_id) cmds @
           [inquire, ''D '' @ serialize_point q @ [newline] @ ''OK'' @ [newline]]\<rparr>)
    \<and> newline \<notin> set (serialize_point q)
    \<and> bindE (unescape (serialize_point q)) parse = Inr (SList [Atom ''value'', Atom q], [])"
proof -
  obtain inc out where s: "s = \<lparr>incoming = inc, sent = out\<rparr>" by (cases s) simp
  let ?tail = "''PKDECRYPT'' @ newline # CHR ''D'' # CHR '' '' # data @ newline # rest"
  have inc: "inc = lines cmds @ ?tail"
    using assms(2) by (simp add: s lines_def)
  have "server_connection version agent_id sign_identity s
      = serve_loop version agent_id sign_identity \<lparr>incoming = lines cmds @ ?tail, sent = out @ [greeting]\<rparr>"
    by (simp add: server_connection_def bindIO_def sendall_def send_bytes_def s inc)
  also have "\<dots> = serve_loop version agent_id sign_identity
      \<lparr>incoming = ?tail, sent = (out @ [greeting]) @ map (command_reply version agent_id) cmds\<rparr>"
    using assms(1) by (rule serve_loop_commands)
  also have "\<dots> = pkdecrypt sign_identity
      \<lparr>incoming = CHR ''D'' # CHR '' '' # data @ newline # rest,
       sent = (out @ [greeting]) @ map (command_reply version agent_id) cmds\<rparr>"
    using recvline_line [of "''PKDECRYPT''" "CHR ''D'' # CHR '' '' # data @ newline # rest"]
    by (subst serve_loop.simps) simp
  also have "\<dots> = (Returns (), \<lparr>incoming = rest,
      sent = ((out @ [greeting]) @ map (command_reply version agent_id) cmds) @
        [inquire, ''D '' @ serialize_point q @ [newline] @ ''OK'' @ [newline]]\<rparr>)"
    using assms(3-8) by (rule pkdecrypt_reply)
  finally have "server_connection version agent_id sign_identity s =
      (Returns (),
       s\<lparr>incoming := rest,
         sent := sent s @ [greeting] @ map (command_reply version agent_id) cmds @
           [inquire, ''D '' @ serialize_point q @ [newline] @ ''OK'' @ [newline]]\<rparr>)"
    by (simp add: s)
  then show ?thesis
    by (simp add: newline_serialize_point parse_point)
qed


theorem server_pkdecrypt_reply_witness:
  "other_command ''GETINFO version'' \<and>
   incoming \<lparr>incoming = lines [''GETINFO version''] @
        lines [''PKDECRYPT'', ''D '' @ ''(7:enc-val(4:ecdh(1:e3:abc)))''] @ [], sent = []\<rparr>
     = lines [''GETINFO version''] @
        lines [''PKDECRYPT'', ''D '' @ ''(7:enc-val(4:ecdh(1:e3:abc)))''] @ [] \<and>
   newline \<notin> set ''(7:enc-val(4:ecdh(1:e3:abc)))'' \<and>
   bindE (unescape ''(7:enc-val(4:ecdh(1:e3:abc)))'') parse
     = Inr (SList [Atom ''enc-val'', SList [Atom ''ecdh'', SList [Atom ''e'', Atom ''abc'']]], []) \<and>
   lookup_e (SList [Atom ''enc-val'', SList [Atom ''ecdh'', SList [Atom ''e'', Atom ''abc'']]])
     = Inr (Atom ''abc'') \<and>
   (\<lambda>c. Inr (CHR 0x04 # replicate 64 (CHR 0x00))) (Atom ''abc'')
     = (Inr (CHR 0x04 # replicate 64 (CHR 0x00)) :: error + string) \<and>
   length (CHR 0x04 # replicate 64 (CHR 0x00)) = 65 \<and>
   take 1 (CHR 0x04 # replicate 64 (CHR 0x00)) = [CHR 0x04] \<and>
   server_connection ''2.1.11'' ''TREZOR-GPG'' (\<lambda>c. Inr (CHR 0x04 # replicate 64 (CHR 0x00)))
     \<lparr>incoming = lines [''GETINFO version''] @
        lines [''PKDECRYPT'', ''D '' @ ''(7:enc-val(4:ecdh(1:e3:abc)))''] @ [], sent = []\<rparr>
   = (Returns (),
      \<lparr>incoming = [],
       sent = [greeting, ''D 2.1.11'' @ [newline] @ ''OK'' @ [newline], inquire,
         ''D '' @ serialize_point (CHR 0x04 # replicate 64 (CHR 0x00)) @ [newline] @ ''OK'' @ [newline]]\<rparr>) \<and>
   newline \<notin> set (serialize_point (CHR 0x04 # replicate 64 (CHR 0x00))) \<and>
   bindE (unescape (serialize_point (CHR 0x04 # replicate 64 (CHR 0x00)))) parse
     = Inr (SList [Atom ''value'', Atom (CHR 0x04 # replicate 64 (CHR 0x00))], [])"
proof -
  let ?data = "''(7:enc-val(4:ecdh(1:e3:abc)))''"
  let ?exp = "SList [Atom ''enc-val'', SList [Atom ''ecdh'', SList [Atom ''e'', Atom ''abc'']]]"
  let ?q = "CHR 0x04 # replicate 64 (CHR 0x00)"
  let ?cap = "\<lambda>c::sexp. (Inr ?q :: error + string)"
  let ?s = "\<lparr>incoming = lines [''GETINFO version''] @ lines [''PKDECRYPT'', ''D '' @ ?data] @ [],
             sent = []\<rparr>"
  have h1: "\<And>l. l \<in> set [''GETINFO version''] \<Longrightarrow> other_command l"
    by (simp add: other_command_def)
  have h2: "incoming ?s = lines [''GETINFO version''] @ lines [''PKDECRYPT'', ''D '' @ ?data] @ []"
    by simp
  have h3: "newline \<notin> set ?data" by simp
  have h4: "bindE (unescape ?data) parse = Inr (?exp, [])" by code_simp
  have h5: "lookup_e ?exp = Inr (Atom ''abc'')"
    by (simp add: lookup_e_def item_def elems_def slice1_def unpack2_def dict_get_def)
  have h6: "?cap (Atom ''abc'') = Inr ?q" by simp
  have h7: "length ?q = 65" by simp
  have h8: "take 1 ?q = [CHR 0x04]" by simp
  from server_pkdecrypt_reply [of "[''GETINFO version'']" ?s ?data "[]" ?exp "[]" "Atom ''abc''"
      ?cap ?q "''2.1.11''" "''TREZOR-GPG''", OF h1 h2 h3 h4 h5 h6 h7 h8]
    h1 h3 h4 h5 h7
  show ?thesis by (simp add: command_reply_def)
qed


end
